theory Spec2Isabelle
  imports Main
begin

section \<open>JavaScript values\<close>

text \<open>
  The form keeps its fields in a plain nested object (\<open>this.state.fields\<close>); field
  records and state chunks are plain objects too. A plain object is an association
  list in insertion order, the order in which JavaScript enumerates string keys.
  Functions stored in a record (\<open>onFocus\<close>, \<open>mapValue\<close>, ...) are opaque
  and only identified by a number; \<open>JForm\<close> is the form instance (\<open>this\<close>) where it
  is passed along as a value.
\<close>

datatype jsval =
    JUndefined
  | JNull
  | JBool bool
  | JNum int
  | JStr string
  | JFun nat
  | JForm
  | JArr "jsval list"
  | JObj "(string \<times> jsval) list"

type_synonym keyPath = "string list"

text \<open>The own enumerable string-keyed properties of a value. Field paths are made of
  field and group names, so only plain objects are ever indexed by them.\<close>

fun entries :: "jsval \<Rightarrow> (string \<times> jsval) list" where
  "entries (JObj kvs) = kvs"
| "entries _ = []"

fun isNil :: "jsval \<Rightarrow> bool" where
  "isNil JUndefined = True"
| "isNil JNull = True"
| "isNil _ = False"

fun isObject :: "jsval \<Rightarrow> bool" where
  "isObject (JObj _) = True"
| "isObject _ = False"

text \<open>JavaScript truthiness, as used by \<open>&&\<close>, \<open>||\<close>, \<open>!\<close> and \<open>if\<close>.\<close>

fun truthy :: "jsval \<Rightarrow> bool" where
  "truthy JUndefined = False"
| "truthy JNull = False"
| "truthy (JBool b) = b"
| "truthy (JNum n) = (n \<noteq> 0)"
| "truthy (JStr s) = (s \<noteq> [])"
| "truthy (JFun _) = True"
| "truthy JForm = True"
| "truthy (JArr _) = True"
| "truthy (JObj _) = True"

text \<open>\<open>Object.prototype.hasOwnProperty.call(obj, k)\<close>, and \<open>obj[k]\<close> read among
  the own entries of the object. What a value has besides them is read by \<open>member\<close>,
  below.\<close>

definition has :: "string \<Rightarrow> jsval \<Rightarrow> bool" where
  "has k obj = (map_of (entries obj) k \<noteq> None)"

definition getProp :: "string \<Rightarrow> jsval \<Rightarrow> jsval" where
  "getProp k obj = (case map_of (entries obj) k of None \<Rightarrow> JUndefined | Some v \<Rightarrow> v)"

section \<open>The Ramda functions used by the form\<close>

text \<open>\<open>R.path\<close>: walks the path, giving \<open>undefined\<close> as soon as the value at hand
  is \<open>null\<close> or \<open>undefined\<close>.\<close>

fun path :: "keyPath \<Rightarrow> jsval \<Rightarrow> jsval" where
  "path [] val = val"
| "path (k # ks) val = (if isNil val then JUndefined else path ks (getProp k val))"

text \<open>\<open>R.hasPath\<close>: every segment is an own property of the value reached so far;
  the empty path is never present.\<close>

fun hasPathFrom :: "keyPath \<Rightarrow> jsval \<Rightarrow> bool" where
  "hasPathFrom [] val = True"
| "hasPathFrom (k # ks) val = (if has k val then hasPathFrom ks (getProp k val) else False)"

definition hasPath :: "keyPath \<Rightarrow> jsval \<Rightarrow> bool" where
  "hasPath p obj = (if p = [] then False else hasPathFrom p obj)"

text \<open>
  A value has members beyond the own entries of a plain object: those it inherits
  from its prototype (\<open>constructor\<close>, \<open>toString\<close>, ...) and those built into it
  (the length and the indices of an array or a string). What \<open>val[key]\<close> finds there
  belongs to the JavaScript runtime and is a parameter: a function of the value and
  the key, \<open>undefined\<close> where the value has no such member.
\<close>

type_synonym builtins = "jsval \<Rightarrow> string \<Rightarrow> jsval"

definition member :: "builtins \<Rightarrow> string \<Rightarrow> jsval \<Rightarrow> jsval" where
  "member rt k val = (if has k val then getProp k val else rt val k)"

text \<open>\<open>R.path\<close> with \<open>val[key]\<close> read in full. It is \<open>path\<close> on every path that is in
  the object, and for a runtime without built-in members; where the form decides by
  \<open>R.path\<close> whether a field is registered, the other members count.\<close>

fun pathIn :: "builtins \<Rightarrow> keyPath \<Rightarrow> jsval \<Rightarrow> jsval" where
  "pathIn rt [] val = val"
| "pathIn rt (k # ks) val = (if isNil val then JUndefined else pathIn rt ks (member rt k val))"

text \<open>\<open>R.pathOr(d, p, obj)\<close> is \<open>R.defaultTo(d, R.path(p, obj))\<close>.\<close>

definition pathOr :: "jsval \<Rightarrow> keyPath \<Rightarrow> jsval \<Rightarrow> jsval" where
  "pathOr d p obj = (if isNil (path p obj) then d else path p obj)"

text \<open>\<open>R.assoc\<close>: a shallow copy of the object with the key set; an existing key
  keeps its position, a new one comes last.\<close>

fun assocEntries :: "string \<Rightarrow> jsval \<Rightarrow> (string \<times> jsval) list \<Rightarrow> (string \<times> jsval) list" where
  "assocEntries k v [] = [(k, v)]"
| "assocEntries k v ((k', v') # kvs) =
     (if k' = k then (k, v) # kvs else (k', v') # assocEntries k v kvs)"

definition assoc :: "string \<Rightarrow> jsval \<Rightarrow> jsval \<Rightarrow> jsval" where
  "assoc k v obj = JObj (assocEntries k v (entries obj))"

text \<open>\<open>R.assocPath\<close>: intermediate objects are created where the path leaves the
  object. (Its branch for integer segments and arrays does not apply to string
  segments.)\<close>

fun assocPath :: "keyPath \<Rightarrow> jsval \<Rightarrow> jsval \<Rightarrow> jsval" where
  "assocPath [] val obj = val"
| "assocPath [k] val obj = assoc k val obj"
| "assocPath (k # k' # ks) val obj =
     assoc k
       (assocPath (k' # ks) val
          (if \<not> isNil obj \<and> has k obj then getProp k obj else JObj []))
       obj"

text \<open>\<open>R.mergeDeepWithKey\<close>: the keys of the left object first, then the keys only the
  right object has; where both have a key and both values are plain objects the
  values are merged recursively, otherwise \<open>fn\<close> decides.\<close>

lemma size_entry_less: "kv \<in> set (entries obj) \<Longrightarrow> size (snd kv) < size obj"
proof (cases obj)
  case (JObj kvs)
  assume "kv \<in> set (entries obj)"
  with JObj have "kv \<in> set kvs" by simp
  then have "size (snd kv) < Suc (size_list (size_prod (\<lambda>_. 0) size) kvs)"
    by (induction kvs) (auto simp: less_Suc_eq)
  with JObj show ?thesis by simp
qed simp_all

function mergeDeepWithKey ::
  "(string \<Rightarrow> jsval \<Rightarrow> jsval \<Rightarrow> jsval) \<Rightarrow> jsval \<Rightarrow> jsval \<Rightarrow> jsval" where
  "mergeDeepWithKey fn l r =
     JObj (map (\<lambda>kv.
                 (fst kv,
                  if has (fst kv) r
                  then (if isObject (snd kv) \<and> isObject (getProp (fst kv) r)
                        then mergeDeepWithKey fn (snd kv) (getProp (fst kv) r)
                        else fn (fst kv) (snd kv) (getProp (fst kv) r))
                  else snd kv))
             (entries l)
           @ filter (\<lambda>kv. \<not> has (fst kv) l) (entries r))"
  by pat_completeness auto
termination
  by (relation "measure (\<lambda>(fn, l, r). size l)") (auto simp: size_entry_less)

declare mergeDeepWithKey.simps [simp del]

definition mergeDeepLeft :: "jsval \<Rightarrow> jsval \<Rightarrow> jsval" where
  "mergeDeepLeft l r = mergeDeepWithKey (\<lambda>k lVal rVal. lVal) l r"

definition mergeDeepRight :: "jsval \<Rightarrow> jsval \<Rightarrow> jsval" where
  "mergeDeepRight l r = mergeDeepWithKey (\<lambda>k lVal rVal. rVal) l r"

section \<open>Combining validation results\<close>

text \<open>\<open>TValidationResult\<close>: the flag and the rejected rule identifiers.\<close>

record validationResult =
  expected :: bool
  rejectedRules :: "string list"

text \<open>A validator returns one result or an array of results.\<close>

datatype validatorOutput = Single validationResult | Many "validationResult list"

fun toResultArray :: "validatorOutput \<Rightarrow> validationResult list" where
  "toResultArray (Many rs) = rs"
| "toResultArray (Single r) = [r]"

definition reduceStep :: "validationResult \<Rightarrow> validationResult \<Rightarrow> validationResult" where
  "reduceStep acc result =
     acc\<lparr>expected := (if expected acc then expected result else expected acc),
         rejectedRules := rejectedRules acc @ rejectedRules result\<rparr>"

definition reduceValidationResults ::
  "validationResult \<Rightarrow> validationResult list \<Rightarrow> validationResult" where
  "reduceValidationResults initialAcc results = foldl reduceStep initialAcc results"

definition mapToSingleResult ::
  "('args \<Rightarrow> validatorOutput) list \<Rightarrow> 'args \<Rightarrow> validationResult" where
  "mapToSingleResult validators args =
     foldl (\<lambda>acc validator. reduceValidationResults acc (toResultArray (validator args)))
       \<lparr>expected = True, rejectedRules = []\<rparr> validators"

section \<open>The form's state and its commit\<close>

text \<open>\<open>this.state\<close>; its key \<open>fields\<close> is the field \<open>stateFields\<close>.\<close>

record formState =
  dirty :: bool
  stateFields :: jsval
  rules :: jsval

text \<open>The argument of \<open>setState\<close>: the keys of the state to replace.\<close>

record partialState =
  dirtyUpdate :: "bool option"
  fieldsUpdate :: "jsval option"

text \<open>What is thrown: by the host, by \<open>invariant\<close> with its message format and the
  value the format refers to, by reading a property of \<open>undefined\<close> or \<open>null\<close>, or by
  a function of the caller.\<close>

datatype error =
    HostError string
  | InvariantViolation string jsval
  | TypeError string
  | Thrown jsval

text \<open>How a call ends for its caller: with an exception thrown to it, or with a value.
  A call to an \<open>async\<close> function always returns a promise; what is thrown in its body
  rejects that promise.\<close>

datatype 'a completion = Throws error | Returns 'a

datatype 'a promise = Resolved 'a | Rejected error

text \<open>
  \<open>this.setState(nextState, callback)\<close> belongs to the host UI library. It either
  throws, which the parameter \<open>hostThrows\<close> decides, or replaces the given keys of
  the state and then runs the callback.
\<close>

type_synonym hostThrows = "partialState \<Rightarrow> error option"

definition mergeState :: "formState \<Rightarrow> partialState \<Rightarrow> formState" where
  "mergeState st next =
     st\<lparr>dirty := (case dirtyUpdate next of None \<Rightarrow> dirty st | Some d \<Rightarrow> d),
        stateFields := (case fieldsUpdate next of None \<Rightarrow> stateFields st | Some f \<Rightarrow> f)\<rparr>"

definition setState :: "hostThrows \<Rightarrow> formState \<Rightarrow> partialState \<Rightarrow> error + formState" where
  "setState hostThrows st next =
     (case hostThrows next of Some e \<Rightarrow> Inl e | None \<Rightarrow> Inr (mergeState st next))"

text \<open>\<open>promiseState\<close>: the promise and the state of the form afterwards. The promise
  is resolved with \<open>this.state\<close> as it is when the host runs the callback.\<close>

definition promiseState ::
  "hostThrows \<Rightarrow> formState \<Rightarrow> partialState \<Rightarrow> formState promise \<times> formState" where
  "promiseState hostThrows st next =
     (case setState hostThrows st next of
        Inl e \<Rightarrow> (Rejected e, st)
      | Inr st' \<Rightarrow> (Resolved st', st'))"

section \<open>Applying state patches\<close>

text \<open>A state patch \<open>[fieldPath, updateChunk, callback]\<close>; the callback may be
  missing. A callback is one of the closures the form's own handlers create, with
  the values it captures, or a function of the caller, identified by a number.\<close>

datatype callback =
    External nat
  | FocusCallback jsval
  | ChangeCallback jsval jsval
  | BlurCallback

type_synonym statePatch = "keyPath \<times> jsval \<times> callback option"

datatype invocation = Invoke callback "jsval list"

text \<open>
  Modelled from the spec: \<open>stitchWith\<close> (\<open>utils/stitchWith\<close>) is not among the
  sources. It stitches a list into an object: each entry is put at the key path
  \<open>getKeyPath\<close> gives for it, with the value \<open>getValue\<close> computes from the entry,
  its key path and the object stitched so far.
\<close>

definition stitchWith ::
  "('e \<Rightarrow> keyPath) \<Rightarrow> ('e \<Rightarrow> keyPath \<Rightarrow> jsval \<Rightarrow> jsval) \<Rightarrow> 'e list \<Rightarrow> jsval" where
  "stitchWith getKeyPath getValue list =
     foldl (\<lambda>acc entry. assocPath (getKeyPath entry) (getValue entry (getKeyPath entry) acc) acc)
       (JObj []) list"

text \<open>The second argument of \<open>stitchWith\<close> in \<open>applyStatePatch\<close>. The chunk of a patch
  is a plain object (\<open>Array<[string[], Object]>\<close>).\<close>

definition stitchChunk :: "statePatch \<Rightarrow> keyPath \<Rightarrow> jsval \<Rightarrow> jsval" where
  "stitchChunk patch keyPath existingChunks =
     mergeDeepLeft (fst (snd patch)) (pathOr (JObj []) keyPath existingChunks)"

text \<open>The patches whose field is still in the state, stitched into one update.\<close>

definition stitchedPatches :: "jsval \<Rightarrow> statePatch list \<Rightarrow> jsval" where
  "stitchedPatches prevFields statePatches =
     stitchWith fst stitchChunk (filter (\<lambda>patch. hasPath (fst patch) prevFields) statePatches)"

definition nextFieldsOf :: "jsval \<Rightarrow> statePatch list \<Rightarrow> jsval" where
  "nextFieldsOf prevFields statePatches =
     mergeDeepRight prevFields (stitchedPatches prevFields statePatches)"

text \<open>The functions of the caller (callbacks, and the hooks \<open>onFocus\<close>, \<open>onChange\<close>
  and \<open>onBlur\<close> stored in a field record) are parameters: what the function with a
  given number throws when called with the given arguments, if it throws.\<close>

type_synonym userFunctions = "nat \<Rightarrow> jsval list \<Rightarrow> error option"

text \<open>
  Modelled from the spec: \<open>dispatch\<close> (\<open>utils/dispatch\<close>) is not among the sources.
  It calls the function with the arguments when there is a function.
\<close>

definition dispatchFunction :: "userFunctions \<Rightarrow> jsval \<Rightarrow> jsval \<Rightarrow> error option" where
  "dispatchFunction user func args = (case func of JFun f \<Rightarrow> user f [args] | _ \<Rightarrow> None)"

text \<open>Running a callback with \<open>(fieldState, nextFields)\<close>. The closures of the form's
  handlers read \<open>fieldState.onFocus\<close>, \<open>fieldState.onChange\<close> and
  \<open>fieldState.onBlur\<close>, which throws when \<open>fieldState\<close> is \<open>undefined\<close> or \<open>null\<close>.\<close>

fun runCallback :: "userFunctions \<Rightarrow> callback \<Rightarrow> jsval \<Rightarrow> jsval \<Rightarrow> error option" where
  "runCallback user (External f) fieldState nextFields = user f [fieldState, nextFields]"
| "runCallback user (FocusCallback fieldProps) fieldState nextFields =
     (if isNil fieldState then Some (TypeError ''Cannot read property onFocus'')
      else dispatchFunction user (getProp ''onFocus'' fieldState)
             (JObj [(''fieldProps'', fieldProps), (''fields'', nextFields), (''form'', JForm)]))"
| "runCallback user (ChangeCallback prevValue nextValue) fieldState nextFields =
     (if isNil fieldState then Some (TypeError ''Cannot read property onChange'')
      else dispatchFunction user (getProp ''onChange'' fieldState)
             (JObj [(''prevValue'', prevValue), (''nextValue'', nextValue),
                    (''fieldProps'', fieldState), (''fields'', nextFields), (''form'', JForm)]))"
| "runCallback user BlurCallback fieldState nextFields =
     (if isNil fieldState then Some (TypeError ''Cannot read property onBlur'')
      else dispatchFunction user (getProp ''onBlur'' fieldState)
             (JObj [(''fieldProps'', fieldState), (''fields'', nextFields), (''form'', JForm)]))"

text \<open>The \<open>forEach\<close> over the patches after the commit: the callbacks invoked, in
  order, and what one of them threw. A callback that throws ends the loop.\<close>

fun dispatchCallbacks ::
  "userFunctions \<Rightarrow> jsval \<Rightarrow> statePatch list \<Rightarrow> invocation list \<times> error option" where
  "dispatchCallbacks user nextFields [] = ([], None)"
| "dispatchCallbacks user nextFields ((fieldPath, chunk, callback) # rest) =
     (case callback of
        None \<Rightarrow> dispatchCallbacks user nextFields rest
      | Some cb \<Rightarrow>
          (case runCallback user cb (path fieldPath nextFields) nextFields of
             Some e \<Rightarrow> ([Invoke cb [path fieldPath nextFields, nextFields]], Some e)
           | None \<Rightarrow>
               (case dispatchCallbacks user nextFields rest of
                  (calls, thrown) \<Rightarrow>
                    (Invoke cb [path fieldPath nextFields, nextFields] # calls, thrown))))"

text \<open>\<open>applyStatePatch\<close>: the returned promise, the state afterwards and the
  callbacks invoked, in order. What a callback throws inside \<open>then\<close> rejects the
  promise.\<close>

definition applyStatePatch ::
  "userFunctions \<Rightarrow> hostThrows \<Rightarrow> formState \<Rightarrow> statePatch list \<Rightarrow>
   unit promise \<times> formState \<times> invocation list" where
  "applyStatePatch user hostThrows st statePatches =
     (let prevFields = stateFields st;
          nextFields = nextFieldsOf prevFields statePatches
      in case promiseState hostThrows st \<lparr>dirtyUpdate = None, fieldsUpdate = Some nextFields\<rparr> of
           (Rejected e, st') \<Rightarrow> (Rejected e, st', [])
         | (Resolved nextState, st') \<Rightarrow>
             (case dispatchCallbacks user (stateFields nextState) statePatches of
                (calls, None) \<Rightarrow> (Resolved (), st', calls)
              | (calls, Some e) \<Rightarrow> (Rejected e, st', calls)))"

section \<open>The buffered events\<close>










section \<open>Registering fields\<close>






section \<open>Props, effects and the utilities taken as parameters\<close>

text \<open>The optional callback props of the form.\<close>

datatype hook =
    OnFirstChange | OnInvalid | OnSubmitStart | OnSubmitted | OnSubmitFailed | OnSubmitEnd

text \<open>What the \<open>action\<close> prop returns: something that is not a thenable, or a promise
  with the way it settles.\<close>

datatype settlement = Fulfills jsval | Rejects jsval | NeverSettles

datatype actionResult = NotThenable jsval | Thenable settlement

record formProps =
  action :: "(jsval \<Rightarrow> actionResult) option"
  onSerialize :: "(jsval \<Rightarrow> jsval) option"
  given :: "hook \<Rightarrow> bool"

text \<open>What a method of the form does besides changing the state, in order.\<close>

datatype effect =
    PreventDefault
  | Emit statePatch
  | Called invocation
  | HookCall hook jsval
  | ActionCall jsval

text \<open>The payload of a \<open>fieldFocus\<close>, \<open>fieldChange\<close> or \<open>fieldBlur\<close> event:
  \<open>{ event, fieldProps, prevValue, nextValue }\<close>, with \<open>fieldProps.fieldPath\<close> read
  as a key path.\<close>

record fieldEvent =
  domEvent :: jsval
  eventFieldPath :: keyPath
  eventFieldProps :: jsval
  eventPrevValue :: jsval
  eventNextValue :: jsval

text \<open>
  The modules \<open>recordUtils\<close>, \<open>fieldUtils\<close> and \<open>utils/handlers\<close> are not among the
  sources; the functions the form calls are parameters:
  \<^item> \<open>setFocused\<close> is \<open>recordUtils.setFocused\<close>;
  \<^item> \<open>changeHandler\<close> is \<open>handlers.handleFieldChange\<close>: the chunks it passes to
    \<open>onUpdateValue\<close>, in order, and the patch its promise resolves with;
  \<^item> \<open>blurHandler\<close> is \<open>handlers.handleFieldBlur\<close>: the patch it resolves with;
  \<^item> \<open>validateUtil\<close> is \<open>utils/handlers/validateField\<close>, of \<open>chain\<close>, \<open>force\<close>,
    \<open>fieldProps\<close> and \<open>fields\<close>: the patch it resolves with;
  \<^item> \<open>serializeFields\<close> is \<open>fieldUtils.serializeFields\<close>;
  \<^item> \<open>host\<close> says when the host's \<open>setState\<close> throws;
  \<^item> \<open>builtin\<close> is the runtime's part of \<open>val[key]\<close>, and \<open>callers\<close> the functions of
    the caller.
\<close>

record utils =
  setFocused :: "bool \<Rightarrow> jsval \<Rightarrow> jsval"
  changeHandler :: "fieldEvent \<Rightarrow> jsval \<Rightarrow> jsval list \<times> jsval"
  blurHandler :: "fieldEvent \<Rightarrow> jsval \<Rightarrow> jsval"
  validateUtil :: "jsval \<Rightarrow> bool \<Rightarrow> jsval \<Rightarrow> jsval \<Rightarrow> jsval"
  serializeFields :: "jsval \<Rightarrow> jsval"
  host :: hostThrows
  builtin :: builtins
  callers :: userFunctions

text \<open>
  Modelled from the spec: \<open>dispatch\<close> (\<open>utils/dispatch\<close>) is not among the sources.
  Here it is applied to a prop of the form: a lifecycle hook is optional; it is
  invoked, with the context object, when the prop is given.
\<close>

definition dispatch :: "formProps \<Rightarrow> hook \<Rightarrow> jsval \<Rightarrow> effect list" where
  "dispatch props h args = (if given props h then [HookCall h args] else [])"

section \<open>The handlers of focus, change and blur\<close>

text \<open>\<open>withRegisteredField\<close>: the wrapped function runs only when \<open>R.path\<close> finds
  something truthy at the field path of the payload; otherwise nothing happens.\<close>

definition withRegisteredField ::
  "builtins \<Rightarrow> (formState \<Rightarrow> fieldEvent \<Rightarrow> effect list \<times> formState) \<Rightarrow>
   formState \<Rightarrow> fieldEvent \<Rightarrow> effect list \<times> formState" where
  "withRegisteredField rt func st args =
     (let includesField = pathIn rt (eventFieldPath args) (stateFields st)
      in if truthy includesField then func st args else ([], st))"

definition fieldFocusBody :: "utils \<Rightarrow> formState \<Rightarrow> fieldEvent \<Rightarrow> effect list \<times> formState" where
  "fieldFocusBody u st args =
     (let nextFieldPatch = setFocused u True (JObj [])
      in ([Emit (eventFieldPath args, nextFieldPatch, Some (FocusCallback (eventFieldProps args)))],
          st))"

definition handleFieldFocus :: "utils \<Rightarrow> formState \<Rightarrow> fieldEvent \<Rightarrow> effect list \<times> formState" where
  "handleFieldFocus u = withRegisteredField (builtin u) (fieldFocusBody u)"







section \<open>Validation of a field and of the form\<close>

text \<open>The \<open>fieldPath\<close> of a field record is an array of strings.\<close>

fun segmentOf :: "jsval \<Rightarrow> string" where
  "segmentOf (JStr s) = s"
| "segmentOf _ = []"

fun keyPathOf :: "jsval \<Rightarrow> keyPath" where
  "keyPathOf (JArr segments) = map segmentOf segments"
| "keyPathOf _ = []"

definition fieldPathOf :: "jsval \<Rightarrow> keyPath" where
  "fieldPathOf fieldRecord = keyPathOf (getProp ''fieldPath'' fieldRecord)"

text \<open>The argument of \<open>validateField\<close>, with the defaults of the destructuring:
  \<open>force = false\<close>, \<open>forceProps = false\<close>, \<open>shouldUpdateFields = true\<close>.\<close>

record validateFieldArgs =
  argChain :: jsval
  argForce :: bool
  argFieldProps :: jsval
  argFields :: jsval
  argForceProps :: bool
  argShouldUpdateFields :: bool

definition onlyFieldProps :: "jsval \<Rightarrow> validateFieldArgs" where
  "onlyFieldProps fp =
     \<lparr>argChain = JUndefined, argForce = False, argFieldProps = fp, argFields = JUndefined,
      argForceProps = False, argShouldUpdateFields = True\<rparr>"

text \<open>\<open>validateField\<close>: the whole next field state it resolves with, and the patch it
  emits.\<close>

definition validateField :: "utils \<Rightarrow> formState \<Rightarrow> validateFieldArgs \<Rightarrow> jsval \<times> effect list" where
  "validateField u st args =
     (let explicitFieldProps = argFieldProps args;
          fields = (if truthy (argFields args) then argFields args else stateFields st);
          found = (if argForceProps args then explicitFieldProps
                   else pathIn (builtin u) (fieldPathOf explicitFieldProps) fields);
          fieldProps = (if truthy found then found else explicitFieldProps);
          fieldStatePatch = validateUtil u (argChain args) (argForce args) fieldProps fields
      in (mergeDeepLeft fieldStatePatch fieldProps,
          if argShouldUpdateFields args
          then [Emit (fieldPathOf fieldProps, fieldStatePatch, None)] else []))"

text \<open>\<open>R.is(Object, value)\<close>.\<close>

fun isObjectInstance :: "jsval \<Rightarrow> bool" where
  "isObjectInstance (JObj _) = True"
| "isObjectInstance (JArr _) = True"
| "isObjectInstance (JFun _) = True"
| "isObjectInstance JForm = True"
| "isObjectInstance _ = False"

text \<open>
  Modelled from the spec: \<open>getLeavesWhich\<close> (\<open>utils/getLeavesWhich\<close>) is not among the
  sources. It returns the matching leaves of the tree: a value the predicate
  accepts is a leaf; any other object is searched in turn, in key order.
\<close>

function getLeavesWhich :: "(jsval \<Rightarrow> bool) \<Rightarrow> jsval \<Rightarrow> jsval list" where
  "getLeavesWhich predicate obj =
     concat (map (\<lambda>kv. if predicate (snd kv) then [snd kv]
                        else if isObjectInstance (snd kv) then getLeavesWhich predicate (snd kv)
                        else [])
               (entries obj))"
  by pat_completeness auto
termination
  by (relation "measure (\<lambda>(predicate, obj). size obj)") (auto simp: size_entry_less)

declare getLeavesWhich.simps [simp del]

text \<open>The predicate \<open>validate\<close> passes to \<open>getLeavesWhich\<close>:
  \<open>R.allPass([R.is(Object), R.has('fieldPath'), predicate])\<close>.\<close>

definition isFieldWhich :: "(jsval \<Rightarrow> bool) \<Rightarrow> jsval \<Rightarrow> bool" where
  "isFieldWhich predicate v = (isObjectInstance v \<and> has ''fieldPath'' v \<and> predicate v)"

text \<open>The fields \<open>validate\<close> validates, and what the validations resolve with.\<close>

definition flattenedFields :: "formState \<Rightarrow> (jsval \<Rightarrow> bool) \<Rightarrow> jsval list" where
  "flattenedFields st predicate = getLeavesWhich (isFieldWhich predicate) (stateFields st)"

definition validatedFields :: "utils \<Rightarrow> formState \<Rightarrow> (jsval \<Rightarrow> bool) \<Rightarrow> jsval list" where
  "validatedFields u st predicate =
     map (\<lambda>fp. fst (validateField u st (onlyFieldProps fp))) (flattenedFields st predicate)"

text \<open>\<open>R.propEq('expected', true)\<close> and \<open>R.propEq('expected', false)\<close>.\<close>

definition expectedIs :: "bool \<Rightarrow> jsval \<Rightarrow> bool" where
  "expectedIs b fieldRecord = (getProp ''expected'' fieldRecord = JBool b)"

text \<open>\<open>validate\<close>: the boolean it resolves with, and its effects: the patches of the
  validations, then the hook.\<close>

definition validate :: "utils \<Rightarrow> formProps \<Rightarrow> formState \<Rightarrow> (jsval \<Rightarrow> bool) \<Rightarrow> bool \<times> effect list" where
  "validate u props st predicate =
     (let pendingValidations =
            map (\<lambda>fp. validateField u st (onlyFieldProps fp)) (flattenedFields st predicate);
          validated = map fst pendingValidations;
          isFormValid = list_all (expectedIs True) validated
      in (isFormValid,
          concat (map snd pendingValidations)
          @ (if \<not> isFormValid \<and> given props OnInvalid
             then (let invalidFields = filter (expectedIs False) validated
                   in dispatch props OnInvalid
                        (JObj [(''invalidFields'', JArr invalidFields),
                               (''fields'', stateFields st),
                               (''form'', JForm)]))
             else [])))"

section \<open>Submitting the form\<close>

text \<open>\<open>serialize\<close>: the serialized fields, passed through \<open>onSerialize\<close> when given.\<close>

definition serialize :: "utils \<Rightarrow> formProps \<Rightarrow> formState \<Rightarrow> jsval" where
  "serialize u props st =
     (let fields = stateFields st;
          serialized = serializeFields u fields
      in case onSerialize props of
           Some f \<Rightarrow> f (JObj [(''serialized'', serialized), (''fields'', fields), (''form'', JForm)])
         | None \<Rightarrow> serialized)"

text \<open>A promise as its holder finds it: settled, or never settling.\<close>

datatype 'a pending = Settled "'a promise" | Pending

definition noActionMessage :: string where
  "noActionMessage =
     ''Cannot submit the form without `action` prop specified explicitly. '' @
     ''Expected a function which returns Promise, but received: %s.''"

definition notThenableMessage :: string where
  "notThenableMessage =
     ''Cannot submit the form. Expected `action` prop of the Form to return '' @
     ''an instance of Promise, but got: %s. Make sure you return a Promise '' @
     ''from your action handler.''"

text \<open>The object of arguments passed to each custom handler of a submit.\<close>

definition callbackArgsOf :: "utils \<Rightarrow> formProps \<Rightarrow> formState \<Rightarrow> jsval" where
  "callbackArgsOf u props st =
     JObj [(''serialized'', serialize u props st), (''fields'', stateFields st),
           (''form'', JForm)]"

text \<open>\<open>submit\<close>: how the call ends, and its effects. \<open>event\<close> says whether an event
  was passed.\<close>

definition submit ::
  "utils \<Rightarrow> formProps \<Rightarrow> formState \<Rightarrow> bool \<Rightarrow> jsval pending completion \<times> effect list" where
  "submit u props st event =
     (let prevented = (if event then [PreventDefault] else [])
      in case action props of
           None \<Rightarrow>
             (Returns (Settled (Rejected (InvariantViolation noActionMessage JUndefined))),
              prevented)
         | Some act \<Rightarrow>
             (let validation = validate u props st (\<lambda>fieldRecord. True);
                  isFormValid = fst validation
              in if \<not> isFormValid
                 then (Returns (Settled (Resolved JUndefined)), prevented @ snd validation)
                 else
                   (let callbackArgs = callbackArgsOf u props st;
                        started = prevented @ snd validation
                                  @ dispatch props OnSubmitStart callbackArgs
                                  @ [ActionCall callbackArgs]
                    in case act callbackArgs of
                         NotThenable pendingSubmit \<Rightarrow>
                           (Returns (Settled (Rejected
                              (InvariantViolation notThenableMessage pendingSubmit))),
                            started)
                       | Thenable NeverSettles \<Rightarrow> (Returns Pending, started)
                       | Thenable (Fulfills res) \<Rightarrow>
                           (Returns (Settled (Resolved JUndefined)),
                            started
                            @ dispatch props OnSubmitted (assoc ''res'' res callbackArgs)
                            @ dispatch props OnSubmitEnd (assoc ''res'' res callbackArgs))
                       | Thenable (Rejects res) \<Rightarrow>
                           (Returns (Settled (Resolved JUndefined)),
                            started
                            @ dispatch props OnSubmitFailed (assoc ''res'' res callbackArgs)
                            @ dispatch props OnSubmitEnd (assoc ''res'' res callbackArgs)))))"

section \<open>Auxiliary notions and example forms\<close>

text \<open>Two key paths are comparable when one is a prefix of the other: then a value put
  at one of them is seen or replaced through the other.\<close>

fun comparable :: "keyPath \<Rightarrow> keyPath \<Rightarrow> bool" where
  "comparable [] q = True"
| "comparable p [] = True"
| "comparable (a # p) (b # q) = (a = b \<and> comparable p q)"

text \<open>The patches of a batch that carry a callback, with their paths, in arrival
  order.\<close>

fun withCallback :: "statePatch list \<Rightarrow> (keyPath \<times> callback) list" where
  "withCallback [] = []"
| "withCallback ((fieldPath, chunk, Some cb) # rest) = (fieldPath, cb) # withCallback rest"
| "withCallback ((fieldPath, chunk, None) # rest) = withCallback rest"

fun isActionCall :: "effect \<Rightarrow> bool" where
  "isActionCall (ActionCall args) = True"
| "isActionCall _ = False"

fun isHookCall :: "effect \<Rightarrow> bool" where
  "isHookCall (HookCall h args) = True"
| "isHookCall _ = False"

fun isHookCallOf :: "hook \<Rightarrow> effect \<Rightarrow> bool" where
  "isHookCallOf h (HookCall h' args) = (h' = h)"
| "isHookCallOf h _ = False"

text \<open>The record \<open>validateField\<close> validates for the field props it is given alone: the
  one found in the state at their path, or else the given ones.\<close>

definition recordToValidate :: "utils \<Rightarrow> formState \<Rightarrow> jsval \<Rightarrow> jsval" where
  "recordToValidate u st fp =
     (if truthy (pathIn (builtin u) (fieldPathOf fp) (stateFields st))
      then pathIn (builtin u) (fieldPathOf fp) (stateFields st) else fp)"

text \<open>A form with one registered field \<open>a\<close>, and hosts that commit every update or
  none.\<close>

definition exampleFields :: jsval where
  "exampleFields =
     JObj [(''a'', JObj [(''fieldPath'', JArr [JStr ''a'']), (''focused'', JBool False)])]"

definition exampleState :: formState where
  "exampleState = \<lparr>dirty = False, stateFields = exampleFields, rules = JObj []\<rparr>"

text \<open>A runtime with the members every value inherits from \<open>Object.prototype\<close>, and
  one with none.\<close>

definition objectPrototype :: builtins where
  "objectPrototype val k =
     (if \<not> isNil val \<and>
         k \<in> set [''constructor'', ''hasOwnProperty'', ''isPrototypeOf'',
                   ''propertyIsEnumerable'', ''toLocaleString'', ''toString'', ''valueOf'']
      then JFun 0 else JUndefined)"

definition noBuiltins :: builtins where
  "noBuiltins val k = JUndefined"

text \<open>Functions of the caller that return, and ones of which the function 3 throws.\<close>

definition allReturn :: userFunctions where
  "allReturn f args = None"

definition thirdThrows :: userFunctions where
  "thirdThrows f args = (if f = 3 then Some (Thrown (JStr ''failed'')) else None)"

definition neverThrows :: hostThrows where
  "neverThrows next = None"

definition alwaysThrows :: hostThrows where
  "alwaysThrows next = Some (HostError ''setState'')"

text \<open>The form of the spec's scenario A: field \<open>a\<close> with the value \<open>x\<close>, and the
  required field \<open>b\<close> with the empty value; a validator that rejects an empty
  required value.\<close>

definition fieldA :: jsval where
  "fieldA = JObj [(''fieldPath'', JArr [JStr ''a'']), (''value'', JStr ''x''),
                  (''required'', JBool False), (''expected'', JBool True)]"

definition fieldB :: jsval where
  "fieldB = JObj [(''fieldPath'', JArr [JStr ''b'']), (''value'', JStr ''''),
                  (''required'', JBool True), (''expected'', JBool True)]"

definition scenarioState :: formState where
  "scenarioState =
     \<lparr>dirty = False, stateFields = JObj [(''a'', fieldA), (''b'', fieldB)], rules = JObj []\<rparr>"

definition validState :: formState where
  "validState = \<lparr>dirty = False, stateFields = JObj [(''a'', fieldA)], rules = JObj []\<rparr>"

definition requiredValidator :: "jsval \<Rightarrow> bool \<Rightarrow> jsval \<Rightarrow> jsval \<Rightarrow> jsval" where
  "requiredValidator chain force fieldRecord allFields =
     JObj [(''validated'', JBool True),
           (''expected'',
            JBool (\<not> (getProp ''required'' fieldRecord = JBool True
                      \<and> getProp ''value'' fieldRecord = JStr '''')))]"

definition exampleUtils :: utils where
  "exampleUtils =
     \<lparr>setFocused = (\<lambda>focused fieldRecord. assoc ''focused'' (JBool focused) fieldRecord),
      changeHandler = (\<lambda>args allFields. ([], JObj [(''value'', eventNextValue args)])),
      blurHandler = (\<lambda>args allFields. JObj [(''focused'', JBool False), (''touched'', JBool True)]),
      validateUtil = requiredValidator,
      serializeFields = (\<lambda>allFields. allFields),
      host = neverThrows,
      builtin = objectPrototype,
      callers = allReturn\<rparr>"

definition exampleProps :: formProps where
  "exampleProps =
     \<lparr>action = Some (\<lambda>args. NotThenable JUndefined),
      onSerialize = None,
      given = (\<lambda>h. True)\<rparr>"

definition absentFieldEvent :: fieldEvent where
  "absentFieldEvent =
     \<lparr>domEvent = JUndefined, eventFieldPath = [''b''],
      eventFieldProps = JObj [(''fieldPath'', JArr [JStr ''b''])],
      eventPrevValue = JStr '''', eventNextValue = JStr ''y''\<rparr>"








section \<open>Properties of the object functions\<close>

lemma has_empty [simp]: "has k (JObj []) = False"
  by (simp add: has_def)

lemma getProp_empty [simp]: "getProp k (JObj []) = JUndefined"
  by (simp add: getProp_def)

lemma path_undefined [simp]: "path p JUndefined = JUndefined"
  by (cases p) simp_all

lemma path_empty_obj: "p \<noteq> [] \<Longrightarrow> path p (JObj []) = JUndefined"
  by (cases p) simp_all

lemma map_of_assocEntries:
  "map_of (assocEntries k v kvs) k' = (if k' = k then Some v else map_of kvs k')"
  by (induction kvs) auto

lemma getProp_assoc: "getProp k' (assoc k v obj) = (if k' = k then v else getProp k' obj)"
  by (simp add: getProp_def assoc_def map_of_assocEntries)

lemma has_assoc: "has k' (assoc k v obj) = (k' = k \<or> has k' obj)"
  by (simp add: has_def assoc_def map_of_assocEntries)

lemma isNil_assoc [simp]: "\<not> isNil (assoc k v obj)"
  by (simp add: assoc_def)

lemma path_assocPath_same: "path p (assocPath p v obj) = v"
  by (induction p v obj rule: assocPath.induct) (simp_all add: getProp_assoc)

lemma getProp_nil: "isNil obj \<Longrightarrow> getProp k obj = JUndefined"
  by (cases obj) (simp_all add: getProp_def)

lemma getProp_not_has: "\<not> has k obj \<Longrightarrow> getProp k obj = JUndefined"
  by (simp add: has_def getProp_def)

lemma path_cons: "path (k # ks) obj = path ks (getProp k obj)"
  by (simp add: getProp_nil)

lemma path_assocPath_indep:
  "\<not> comparable p q \<Longrightarrow> path p (assocPath q v obj) = path p obj"
proof (induction p q arbitrary: obj rule: comparable.induct)
  case (3 a p b q)
  show ?case
  proof (cases "a = b")
    case False
    then show ?thesis
      by (cases q) (simp_all add: path_cons getProp_assoc del: path.simps)
  next
    case True
    with 3 have nc: "\<not> comparable p q" by simp
    then obtain k' ks where q: "q = k' # ks" by (cases q; cases p) auto
    from nc have p: "p \<noteq> []" by (cases p) auto
    let ?sub = "if \<not> isNil obj \<and> has b obj then getProp b obj else JObj []"
    have "path (a # p) (assocPath (b # q) v obj) = path p (assocPath q v ?sub)"
      using True q by (simp add: path_cons getProp_assoc del: path.simps)
    also have "\<dots> = path p ?sub" using 3 True nc by simp
    also have "\<dots> = path p (getProp b obj)"
      using p by (auto simp: path_empty_obj getProp_nil getProp_not_has)
    finally show ?thesis using True by (simp add: path_cons del: path.simps)
  qed
qed simp_all

lemma map_of_map_entry:
  "map_of (map (\<lambda>kv. (fst kv, g (fst kv) (snd kv))) kvs) k = map_option (g k) (map_of kvs k)"
  by (induction kvs) auto

lemma map_of_filter_key:
  "map_of (filter (\<lambda>kv. P (fst kv)) kvs) k = (if P k then map_of kvs k else None)"
  by (induction kvs) auto

lemma map_of_merge:
  "map_of (entries (mergeDeepWithKey fn l r)) k =
     (case map_of (entries l) k of
        Some lv \<Rightarrow> Some (if has k r
                          then (if isObject lv \<and> isObject (getProp k r)
                                then mergeDeepWithKey fn lv (getProp k r)
                                else fn k lv (getProp k r))
                          else lv)
      | None \<Rightarrow> map_of (entries r) k)"
proof -
  let ?g = "\<lambda>k lv. if has k r
                          then (if isObject lv \<and> isObject (getProp k r)
                                then mergeDeepWithKey fn lv (getProp k r)
                                else fn k lv (getProp k r))
                          else lv"
  have "entries (mergeDeepWithKey fn l r)
        = map (\<lambda>kv. (fst kv, ?g (fst kv) (snd kv))) (entries l)
          @ filter (\<lambda>kv. \<not> has (fst kv) l) (entries r)"
    by (subst mergeDeepWithKey.simps) simp
  moreover have "map_of (map (\<lambda>kv. (fst kv, ?g (fst kv) (snd kv))) (entries l)) k
        = map_option (?g k) (map_of (entries l) k)"
    by (rule map_of_map_entry)
  moreover have "map_of (filter (\<lambda>kv. \<not> has (fst kv) l) (entries r)) k
        = (if \<not> has k l then map_of (entries r) k else None)"
    by (rule map_of_filter_key)
  ultimately have "map_of (entries (mergeDeepWithKey fn l r)) k
        = (case map_option (?g k) (map_of (entries l) k) of
             None \<Rightarrow> (if \<not> has k l then map_of (entries r) k else None)
           | Some v \<Rightarrow> Some v)"
    by (simp only: map_of_append map_add_def)
  then show ?thesis
    by (cases "map_of (entries l) k") (simp_all add: has_def [of k l])
qed

lemma getProp_merge:
  "getProp k (mergeDeepWithKey fn l r) =
     (if has k l
      then (if has k r
            then (if isObject (getProp k l) \<and> isObject (getProp k r)
                  then mergeDeepWithKey fn (getProp k l) (getProp k r)
                  else fn k (getProp k l) (getProp k r))
            else getProp k l)
      else getProp k r)"
  by (auto simp: getProp_def [of k "mergeDeepWithKey fn l r"] map_of_merge has_def getProp_def split: option.splits)

lemma has_merge: "has k (mergeDeepWithKey fn l r) = (has k l \<or> has k r)"
  by (auto simp: has_def [of k "mergeDeepWithKey fn l r"] map_of_merge has_def split: option.splits)

lemma merge_empty_right: "mergeDeepWithKey fn (JObj kvs) (JObj []) = JObj kvs"
  by (subst mergeDeepWithKey.simps) (simp add: map_idI)

lemma stitchWith_snoc:
  "stitchWith f g (xs @ [e]) = assocPath (f e) (g e (f e) (stitchWith f g xs)) (stitchWith f g xs)"
  by (simp add: stitchWith_def)


lemma not_isNil_merge [simp]: "\<not> isNil (mergeDeepWithKey fn l r)"
  by (subst mergeDeepWithKey.simps) simp

lemma foldl_stitch_indep:
  "(\<And>e. e \<in> set ys \<Longrightarrow> \<not> comparable p (f e)) \<Longrightarrow>
   path p (foldl (\<lambda>acc e. assocPath (f e) (g e (f e) acc) acc) acc ys) = path p acc"
  by (induction ys arbitrary: acc) (simp_all add: path_assocPath_indep)

lemma hasPath_nonempty: "hasPath p obj \<Longrightarrow> p \<noteq> []"
  by (auto simp: hasPath_def)

lemma stitched_two_same_path:
  assumes present: "hasPath p prevFields"
    and others: "\<forall>e \<in> set (xs @ ys @ zs). hasPath (fst e) prevFields \<longrightarrow> \<not> comparable p (fst e)"
  shows "path p (stitchedPatches prevFields (xs @ [(p, c1, cb1)] @ ys @ [(p, c2, cb2)] @ zs))
         = mergeDeepLeft c2 (mergeDeepLeft c1 (JObj []))"
proof -
  let ?F = "filter (\<lambda>patch. hasPath (fst patch) prevFields)"
  let ?step = "\<lambda>acc e. assocPath (fst e) (stitchChunk e (fst e) acc) acc"
  have ne: "p \<noteq> []" using present by (rule hasPath_nonempty)
  have ix: "\<And>acc. path p (foldl ?step acc (?F xs)) = path p acc"
    using others by (intro foldl_stitch_indep) auto
  have iy: "\<And>acc. path p (foldl ?step acc (?F ys)) = path p acc"
    using others by (intro foldl_stitch_indep) auto
  have iz: "\<And>acc. path p (foldl ?step acc (?F zs)) = path p acc"
    using others by (intro foldl_stitch_indep) auto
  let ?B' = "foldl ?step (JObj []) (?F xs)"
  let ?B = "?step ?B' (p, c1, cb1)"
  let ?A' = "foldl ?step ?B (?F ys)"
  let ?A = "?step ?A' (p, c2, cb2)"
  have "path p ?B' = JUndefined"
    using ix [of "JObj []"] ne by (simp add: path_empty_obj)
  then have B: "path p ?B = mergeDeepLeft c1 (JObj [])"
    by (simp add: path_assocPath_same stitchChunk_def pathOr_def)
  have "path p ?A' = path p ?B" by (rule iy)
  with B have "path p ?A = mergeDeepLeft c2 (mergeDeepLeft c1 (JObj []))"
    by (simp add: path_assocPath_same stitchChunk_def pathOr_def mergeDeepLeft_def)
  moreover have "path p (foldl ?step ?A (?F zs)) = path p ?A" by (rule iz)
  moreover have "stitchedPatches prevFields (xs @ [(p, c1, cb1)] @ ys @ [(p, c2, cb2)] @ zs)
                 = foldl ?step ?A (?F zs)"
    using present by (simp add: stitchedPatches_def stitchWith_def)
  ultimately show ?thesis by simp
qed

lemma getProp_mergeDeepLeft_two:
  "getProp k (mergeDeepLeft c2 (mergeDeepLeft c1 (JObj []))) =
     (if has k c2
      then (if isObject (getProp k c2) \<and> isObject (getProp k c1)
            then mergeDeepLeft (getProp k c2) (getProp k c1)
            else getProp k c2)
      else getProp k c1)"
  by (auto simp: mergeDeepLeft_def getProp_merge has_merge getProp_not_has)

lemma has_mergeDeepLeft_two:
  "has k (mergeDeepLeft c2 (mergeDeepLeft c1 (JObj []))) = (has k c1 \<or> has k c2)"
  by (auto simp: mergeDeepLeft_def has_merge)

lemma pathIn_undefined [simp]: "pathIn rt p JUndefined = JUndefined"
  by (cases p) simp_all

lemma has_not_nil: "has k val \<Longrightarrow> \<not> isNil val"
  by (cases val) (simp_all add: has_def)

text \<open>On a path that is in the object, and for a runtime without built-in members,
  reading \<open>val[key]\<close> in full is reading the own entries.\<close>

lemma hasPathFrom_pathIn: "hasPathFrom p val \<Longrightarrow> pathIn rt p val = path p val"
  by (induction p arbitrary: val) (auto simp: member_def has_not_nil split: if_splits)

lemma hasPath_pathIn: "hasPath p val \<Longrightarrow> pathIn rt p val = path p val"
  by (simp add: hasPath_def hasPathFrom_pathIn split: if_splits)

lemma pathIn_no_builtins: "pathIn (\<lambda>val k. JUndefined) p val = path p val"
  by (induction p arbitrary: val) (simp_all add: member_def getProp_not_has)


section \<open>Validation results combine\<close>

lemma reduce_expected:
  "expected (reduceValidationResults a rs) = (expected a \<and> list_all expected rs)"
  unfolding reduceValidationResults_def
  by (induction rs arbitrary: a) (auto simp: reduceStep_def)

lemma reduce_rejectedRules:
  "rejectedRules (reduceValidationResults a rs) = rejectedRules a @ concat (map rejectedRules rs)"
  unfolding reduceValidationResults_def
  by (induction rs arbitrary: a) (auto simp: reduceStep_def)

lemma mapToSingle_fold:
  "foldl (\<lambda>acc validator. reduceValidationResults acc (toResultArray (validator args))) a vs
   = reduceValidationResults a (concat (map (\<lambda>v. toResultArray (v args)) vs))"
  unfolding reduceValidationResults_def
  by (induction vs arbitrary: a) auto

text \<open>
  C6. Reducing a sequence of validation results into the initial result
  \<open>{expected: true, rejectedRules: []}\<close> gives the conjunction of the flags and the
  concatenation of the rejected rules in order, also through \<open>mapToSingleResult\<close>,
  where each validator contributes its results in declaration order. One reduction
  step is associative, commutative on \<open>expected\<close>, and appends the rejected rules of
  its right argument to those of its left.
\<close>

theorem validation_results_combine:
  "expected (reduceValidationResults \<lparr>expected = True, rejectedRules = []\<rparr> rs)
     = list_all expected rs
   \<and> rejectedRules (reduceValidationResults \<lparr>expected = True, rejectedRules = []\<rparr> rs)
     = concat (map rejectedRules rs)
   \<and> expected (mapToSingleResult validators args)
     = list_all expected (concat (map (\<lambda>v. toResultArray (v args)) validators))
   \<and> rejectedRules (mapToSingleResult validators args)
     = concat (map rejectedRules (concat (map (\<lambda>v. toResultArray (v args)) validators)))
   \<and> reduceValidationResults (reduceValidationResults a [b]) [c]
     = reduceValidationResults a [reduceValidationResults b [c]]
   \<and> expected (reduceValidationResults a [b]) = expected (reduceValidationResults b [a])
   \<and> expected (reduceValidationResults a [b]) = (expected a \<and> expected b)
   \<and> rejectedRules (reduceValidationResults a [b]) = rejectedRules a @ rejectedRules b"
proof -
  have assoc: "reduceValidationResults (reduceValidationResults a [b]) [c]
     = reduceValidationResults a [reduceValidationResults b [c]]"
    by (auto simp: reduceValidationResults_def reduceStep_def)
  have comm: "expected (reduceValidationResults a [b]) = expected (reduceValidationResults b [a])"
    by (auto simp: reduce_expected)
  have ex: "expected (reduceValidationResults \<lparr>expected = True, rejectedRules = []\<rparr> rs)
     = list_all expected rs"
    by (simp add: reduce_expected)
  have rr: "rejectedRules (reduceValidationResults \<lparr>expected = True, rejectedRules = []\<rparr> rs)
     = concat (map rejectedRules rs)"
    by (simp add: reduce_rejectedRules)
  have mex: "expected (mapToSingleResult validators args)
     = list_all expected (concat (map (\<lambda>v. toResultArray (v args)) validators))"
    by (simp add: mapToSingleResult_def mapToSingle_fold reduce_expected)
  have mrr: "rejectedRules (mapToSingleResult validators args)
     = concat (map rejectedRules (concat (map (\<lambda>v. toResultArray (v args)) validators)))"
    by (simp add: mapToSingleResult_def mapToSingle_fold reduce_rejectedRules)
  have conj: "expected (reduceValidationResults a [b]) = (expected a \<and> expected b)"
    by (simp add: reduce_expected)
  have app: "rejectedRules (reduceValidationResults a [b]) = rejectedRules a @ rejectedRules b"
    by (simp add: reduce_rejectedRules)
  show ?thesis
    by (intro conjI) (fact ex rr mex mrr assoc comm conj app)+
qed

section \<open>Applying state patches: the properties\<close>

text \<open>The loop over the callbacks, in terms of the patches that carry one: the
  callbacks that return are invoked, and then the first one that throws, if any.\<close>

lemma dispatchCallbacks_eq:
  assumes "returns = (\<lambda>(fieldPath, cb). runCallback user cb (path fieldPath nextFields) nextFields = None)"
  shows "dispatchCallbacks user nextFields ps =
     (map (\<lambda>(fieldPath, cb). Invoke cb [path fieldPath nextFields, nextFields])
        (takeWhile returns (withCallback ps) @ take 1 (dropWhile returns (withCallback ps))),
      case dropWhile returns (withCallback ps) of
        [] \<Rightarrow> None
      | (fieldPath, cb) # later \<Rightarrow> runCallback user cb (path fieldPath nextFields) nextFields)"
  unfolding assms
  by (induction ps rule: withCallback.induct) (auto split: option.splits prod.splits)

lemma applyStatePatch_committed:
  assumes "hostThrows \<lparr>dirtyUpdate = None, fieldsUpdate = Some (nextFieldsOf (stateFields st) ps)\<rparr> = None"
  shows "applyStatePatch user hostThrows st ps =
     (case dispatchCallbacks user (nextFieldsOf (stateFields st) ps) ps of
        (calls, None) \<Rightarrow>
          (Resolved (), st\<lparr>stateFields := nextFieldsOf (stateFields st) ps\<rparr>, calls)
      | (calls, Some e) \<Rightarrow>
          (Rejected e, st\<lparr>stateFields := nextFieldsOf (stateFields st) ps\<rparr>, calls))"
  using assms by (simp add: applyStatePatch_def promiseState_def setState_def mergeState_def Let_def)

lemma absent_patch_no_update:
  "\<not> hasPath (fst patch) prevFields \<Longrightarrow>
   nextFieldsOf prevFields (before @ patch # after) = nextFieldsOf prevFields (before @ after)"
  by (simp add: nextFieldsOf_def stitchedPatches_def)

lemma only_absent_patches_keep_tree:
  "\<forall>patch \<in> set ps. \<not> hasPath (fst patch) (JObj kvs) \<Longrightarrow> nextFieldsOf (JObj kvs) ps = JObj kvs"
proof -
  assume "\<forall>patch \<in> set ps. \<not> hasPath (fst patch) (JObj kvs)"
  then have "filter (\<lambda>patch. hasPath (fst patch) (JObj kvs)) ps = []"
    by (induction ps) auto
  then show ?thesis
    by (simp add: nextFieldsOf_def stitchedPatches_def stitchWith_def mergeDeepRight_def
                  merge_empty_right)
qed

lemma first_callback_invoked:
  assumes "hostThrows \<lparr>dirtyUpdate = None,
             fieldsUpdate = Some (nextFieldsOf (stateFields st) ((fp, chunk, Some cb) # after))\<rparr>
           = None"
    and "committed = nextFieldsOf (stateFields st) ((fp, chunk, Some cb) # after)"
  shows "Invoke cb [path fp committed, committed]
         \<in> set (snd (snd (applyStatePatch user hostThrows st ((fp, chunk, Some cb) # after))))"
  using assms by (auto simp: applyStatePatch_committed split: option.splits prod.splits)

text \<open>
  C1. A patch whose field path is not in the tree leaves the tree as it is, but its
  callback is still invoked: the \<open>forEach\<close> after the commit runs over all the
  patches given, not over the filtered ones. For the tree \<open>{a: ...}\<close> and the single
  patch \<open>[['b'], {focused: true}, callback]\<close>, the callback is called with
  \<open>undefined\<close> and the unchanged tree. When the callback is the one \<open>handleFieldFocus\<close>
  creates, it throws on \<open>undefined\<close>: the promise is rejected, and the callback of a
  later patch for the field \<open>a\<close> is not called.
\<close>

theorem absent_patch_callback_invoked:
  "applyStatePatch allReturn neverThrows exampleState
     [([''b''], JObj [(''focused'', JBool True)], Some (External 7))]
   = (Resolved (), exampleState, [Invoke (External 7) [JUndefined, exampleFields]])
   \<and> applyStatePatch allReturn neverThrows exampleState
       [([''b''], JObj [(''focused'', JBool True)],
         Some (FocusCallback (JObj [(''fieldPath'', JArr [JStr ''b''])]))),
        ([''a''], JObj [], Some (External 7))]
     = (Rejected (TypeError ''Cannot read property onFocus''), exampleState,
        [Invoke (FocusCallback (JObj [(''fieldPath'', JArr [JStr ''b''])]))
           [JUndefined, exampleFields]])"
  by code_simp

text \<open>
  C2, as the claim states it, fails where both patches set a key to plain objects:
  the values are merged, the later patch's value is not taken as it is. Two patches
  for the field \<open>a\<close> set \<open>value\<close> to \<open>{from: 1}\<close> and then to \<open>{to: 2}\<close>; the merged
  update has \<open>{to: 2, from: 1}\<close>.
\<close>

theorem same_path_object_values_merged:
  "getProp ''value''
     (path [''a'']
        (stitchedPatches exampleFields
           [([''a''], JObj [(''value'', JObj [(''from'', JNum 1)])], None),
            ([''a''], JObj [(''value'', JObj [(''to'', JNum 2)])], None)]))
   = JObj [(''to'', JNum 2), (''from'', JNum 1)]
   \<and> JObj [(''to'', JNum 2), (''from'', JNum 1)] \<noteq> JObj [(''to'', JNum 2)]"
  by code_simp

text \<open>
  C2, amended. In a batch with two patches for the same field path, which is in the
  tree, and whose other patches are dropped or are for paths that are neither above
  nor below it: the merged update for the path has the keys of both chunks. On a
  key the later chunk sets, it has the later value, unless both chunks have a plain
  object there: then the two objects are merged in the same way, the later one
  first. On a key only the earlier chunk sets, it has the earlier value.
\<close>

theorem same_path_patches_merge:
  assumes "hasPath p prevFields"
    and "\<forall>e \<in> set (xs @ ys @ zs). hasPath (fst e) prevFields \<longrightarrow> \<not> comparable p (fst e)"
    and "merged = path p (stitchedPatches prevFields
                            (xs @ [(p, c1, cb1)] @ ys @ [(p, c2, cb2)] @ zs))"
  shows "getProp k merged =
           (if has k c2
            then (if isObject (getProp k c2) \<and> isObject (getProp k c1)
                  then mergeDeepLeft (getProp k c2) (getProp k c1)
                  else getProp k c2)
            else getProp k c1)
         \<and> has k merged = (has k c1 \<or> has k c2)"
proof -
  have "merged = mergeDeepLeft c2 (mergeDeepLeft c1 (JObj []))"
    using assms by (simp only: stitched_two_same_path)
  then show ?thesis
    by (simp only: getProp_mergeDeepLeft_two has_mergeDeepLeft_two)
qed

theorem same_path_patches_merge_witness:
  "hasPath [''a''] exampleFields
   \<and> getProp ''focused''
       (path [''a'']
          (stitchedPatches exampleFields
             ([([''b''], JObj [(''focused'', JBool True)], None)]
              @ [([''a''], JObj [(''focused'', JBool True), (''touched'', JBool True)], None)]
              @ [] @ [([''a''], JObj [(''focused'', JBool False)], None)] @ [])))
     = JBool False
   \<and> getProp ''touched''
       (path [''a'']
          (stitchedPatches exampleFields
             ([([''b''], JObj [(''focused'', JBool True)], None)]
              @ [([''a''], JObj [(''focused'', JBool True), (''touched'', JBool True)], None)]
              @ [] @ [([''a''], JObj [(''focused'', JBool False)], None)] @ [])))
     = JBool True"
proof -
  have present: "hasPath [''a''] exampleFields"
    by code_simp
  have others: "\<forall>e \<in> set ([([''b''], JObj [(''focused'', JBool True)], None :: callback option)] @ [] @ []).
                  hasPath (fst e) exampleFields \<longrightarrow> \<not> comparable [''a''] (fst e)"
    by simp
  note merged = same_path_patches_merge [OF present others refl,
      where ?c1.0 = "JObj [(''focused'', JBool True), (''touched'', JBool True)]"
        and ?c2.0 = "JObj [(''focused'', JBool False)]" and ?cb1.0 = None and ?cb2.0 = None]
  from merged [of "''focused''"] merged [of "''touched''"] present
  show ?thesis
    by (simp add: has_def getProp_def)
qed

text \<open>
  C3, as the claim states it, fails when a callback throws: the \<open>forEach\<close> ends
  there, the callbacks of the later patches are not invoked, and the promise is
  rejected. Two patches for the field \<open>a\<close> carry callbacks; the first callback
  throws, and the second is never called.
\<close>

theorem throwing_callback_stops_callbacks:
  "applyStatePatch thirdThrows neverThrows exampleState
     [([''a''], JObj [(''focused'', JBool True)], Some (External 3)),
      ([''a''], JObj [(''touched'', JBool True)], Some (External 4))]
   = (Rejected (Thrown (JStr ''failed'')),
      exampleState\<lparr>stateFields :=
        JObj [(''a'', JObj [(''fieldPath'', JArr [JStr ''a'']), (''focused'', JBool True),
                            (''touched'', JBool True)])]\<rparr>,
      [Invoke (External 3)
         [JObj [(''fieldPath'', JArr [JStr ''a'']), (''focused'', JBool True),
                (''touched'', JBool True)],
          JObj [(''a'', JObj [(''fieldPath'', JArr [JStr ''a'']), (''focused'', JBool True),
                              (''touched'', JBool True)])]]])"
  by code_simp

text \<open>
  C3, amended. For a batch of patches for fields that are in the tree, when the host
  commits the merged tree: the callbacks of the patches that carry one are invoked in
  the order of the patches, each with the committed record at its patch's path and
  the committed tree, which is the same for all of them, up to and including the
  first callback that throws. When none throws, every callback is invoked and the
  promise is resolved; when one throws, the later callbacks are not invoked and the
  promise is rejected with what was thrown.
\<close>

theorem callbacks_after_commit:
  assumes "hostThrows \<lparr>dirtyUpdate = None, fieldsUpdate = Some (nextFieldsOf (stateFields st) ps)\<rparr> = None"
    and "committed = nextFieldsOf (stateFields st) ps"
    and "\<forall>patch \<in> set ps. hasPath (fst patch) (stateFields st)"
    and "returns = (\<lambda>(fieldPath, cb). runCallback user cb (path fieldPath committed) committed = None)"
  shows "snd (applyStatePatch user hostThrows st ps) =
           (st\<lparr>stateFields := committed\<rparr>,
            map (\<lambda>(fieldPath, cb). Invoke cb [path fieldPath committed, committed])
              (takeWhile returns (withCallback ps) @ take 1 (dropWhile returns (withCallback ps))))
         \<and> fst (applyStatePatch user hostThrows st ps) =
           (case dropWhile returns (withCallback ps) of
              [] \<Rightarrow> Resolved ()
            | (fieldPath, cb) # later \<Rightarrow>
                (case runCallback user cb (path fieldPath committed) committed of
                   Some e \<Rightarrow> Rejected e
                 | None \<Rightarrow> Resolved ()))
         \<and> (list_all returns (withCallback ps) \<longrightarrow>
              applyStatePatch user hostThrows st ps =
                (Resolved (), st\<lparr>stateFields := committed\<rparr>,
                 map (\<lambda>(fieldPath, cb). Invoke cb [path fieldPath committed, committed])
                   (withCallback ps)))"
proof -
  note loop = dispatchCallbacks_eq [where user = user and nextFields = committed and ps = ps,
      OF assms(4)]
  have applied: "applyStatePatch user hostThrows st ps =
     (case dispatchCallbacks user committed ps of
        (calls, None) \<Rightarrow> (Resolved (), st\<lparr>stateFields := committed\<rparr>, calls)
      | (calls, Some e) \<Rightarrow> (Rejected e, st\<lparr>stateFields := committed\<rparr>, calls))"
    using assms(1) unfolding assms(2) by (simp add: applyStatePatch_committed)
  have calls: "snd (applyStatePatch user hostThrows st ps) =
           (st\<lparr>stateFields := committed\<rparr>,
            map (\<lambda>(fieldPath, cb). Invoke cb [path fieldPath committed, committed])
              (takeWhile returns (withCallback ps) @ take 1 (dropWhile returns (withCallback ps))))"
  proof (cases "dropWhile returns (withCallback ps)")
    case Nil
    show ?thesis by (simp add: applied loop Nil)
  next
    case (Cons thrower later)
    show ?thesis by (cases thrower) (simp add: applied loop Cons split: option.splits)
  qed
  have settled: "fst (applyStatePatch user hostThrows st ps) =
           (case dropWhile returns (withCallback ps) of
              [] \<Rightarrow> Resolved ()
            | (fieldPath, cb) # later \<Rightarrow>
                (case runCallback user cb (path fieldPath committed) committed of
                   Some e \<Rightarrow> Rejected e
                 | None \<Rightarrow> Resolved ()))"
  proof (cases "dropWhile returns (withCallback ps)")
    case Nil
    show ?thesis by (simp add: applied loop Nil)
  next
    case (Cons thrower later)
    show ?thesis by (cases thrower) (simp add: applied loop Cons split: option.splits)
  qed
  have all: "list_all returns (withCallback ps) \<longrightarrow>
              applyStatePatch user hostThrows st ps =
                (Resolved (), st\<lparr>stateFields := committed\<rparr>,
                 map (\<lambda>(fieldPath, cb). Invoke cb [path fieldPath committed, committed])
                   (withCallback ps))"
  proof
    assume "list_all returns (withCallback ps)"
    then have kept: "takeWhile returns (withCallback ps) = withCallback ps"
      and dropped: "dropWhile returns (withCallback ps) = []"
      by (simp_all add: list_all_iff)
    from calls settled show "applyStatePatch user hostThrows st ps =
                (Resolved (), st\<lparr>stateFields := committed\<rparr>,
                 map (\<lambda>(fieldPath, cb). Invoke cb [path fieldPath committed, committed])
                   (withCallback ps))"
      by (simp add: prod_eq_iff kept dropped)
  qed
  from calls settled all show ?thesis by blast
qed

theorem callbacks_after_commit_witness:
  "applyStatePatch thirdThrows neverThrows exampleState
     [([''a''], JObj [(''focused'', JBool True)], Some (External 2)),
      ([''a''], JObj [(''touched'', JBool True)], None),
      ([''a''], JObj [(''dirty'', JBool True)], Some (External 3)),
      ([''a''], JObj [], Some (External 4))]
   = (Rejected (Thrown (JStr ''failed'')),
      exampleState\<lparr>stateFields :=
        JObj [(''a'', JObj [(''fieldPath'', JArr [JStr ''a'']), (''focused'', JBool True),
                            (''dirty'', JBool True), (''touched'', JBool True)])]\<rparr>,
      [Invoke (External 2)
         [JObj [(''fieldPath'', JArr [JStr ''a'']), (''focused'', JBool True),
                (''dirty'', JBool True), (''touched'', JBool True)],
          JObj [(''a'', JObj [(''fieldPath'', JArr [JStr ''a'']), (''focused'', JBool True),
                              (''dirty'', JBool True), (''touched'', JBool True)])]],
       Invoke (External 3)
         [JObj [(''fieldPath'', JArr [JStr ''a'']), (''focused'', JBool True),
                (''dirty'', JBool True), (''touched'', JBool True)],
          JObj [(''a'', JObj [(''fieldPath'', JArr [JStr ''a'']), (''focused'', JBool True),
                              (''dirty'', JBool True), (''touched'', JBool True)])]]])"
proof -
  let ?ps = "[([''a''], JObj [(''focused'', JBool True)], Some (External 2)),
      ([''a''], JObj [(''touched'', JBool True)], None),
      ([''a''], JObj [(''dirty'', JBool True)], Some (External 3)),
      ([''a''], JObj [], Some (External 4))]"
  let ?tree = "JObj [(''a'', JObj [(''fieldPath'', JArr [JStr ''a'']), (''focused'', JBool True),
                          (''dirty'', JBool True), (''touched'', JBool True)])]"
  have commits: "neverThrows \<lparr>dirtyUpdate = None,
      fieldsUpdate = Some (nextFieldsOf (stateFields exampleState) ?ps)\<rparr> = None"
    by (simp add: neverThrows_def)
  have tree: "?tree = nextFieldsOf (stateFields exampleState) ?ps"
    by code_simp
  have present: "\<forall>patch \<in> set ?ps. hasPath (fst patch) (stateFields exampleState)"
    by (simp add: hasPath_def has_def exampleState_def exampleFields_def)
  note shown = callbacks_after_commit [where user = thirdThrows and hostThrows = neverThrows
      and st = exampleState and ps = ?ps, OF commits tree present refl]
  from shown have calls: "snd (applyStatePatch thirdThrows neverThrows exampleState ?ps) =
      (exampleState\<lparr>stateFields := ?tree\<rparr>,
       [Invoke (External 2) [path [''a''] ?tree, ?tree],
        Invoke (External 3) [path [''a''] ?tree, ?tree]])"
    by (simp add: thirdThrows_def)
  from shown have settled: "fst (applyStatePatch thirdThrows neverThrows exampleState ?ps) =
      Rejected (Thrown (JStr ''failed''))"
    by (simp add: thirdThrows_def)
  from calls settled show ?thesis
    by (simp add: prod_eq_iff getProp_def)
qed

text \<open>
  C4. When committing the merged tree throws, the promise of \<open>applyStatePatch\<close> is
  rejected with what was thrown, no callback is invoked, and the state of the form is
  what it was.
\<close>

theorem commit_failure_rejects:
  assumes "hostThrows \<lparr>dirtyUpdate = None, fieldsUpdate = Some (nextFieldsOf (stateFields st) ps)\<rparr> = Some e"
  shows "applyStatePatch user hostThrows st ps = (Rejected e, st, [])"
  using assms by (simp add: applyStatePatch_def promiseState_def setState_def Let_def)

theorem commit_failure_rejects_witness:
  "applyStatePatch allReturn alwaysThrows exampleState
     [([''a''], JObj [(''focused'', JBool True)], Some (External 5))]
   = (Rejected (HostError ''setState''), exampleState, [])"
proof -
  have throws: "alwaysThrows \<lparr>dirtyUpdate = None,
      fieldsUpdate = Some (nextFieldsOf (stateFields exampleState)
        [([''a''], JObj [(''focused'', JBool True)], Some (External 5))])\<rparr>
      = Some (HostError ''setState'')"
    by (simp add: alwaysThrows_def)
  show ?thesis
    by (rule commit_failure_rejects [where hostThrows = alwaysThrows and st = exampleState, OF throws])
qed

section \<open>The buffered events: the properties\<close>












section \<open>Focus, change and blur of a field that is not registered\<close>


text \<open>For comparison, the focus of the registered field \<open>a\<close> emits its patch.\<close>

lemma registered_field_focus_emits:
  "handleFieldFocus exampleUtils exampleState
     (absentFieldEvent\<lparr>eventFieldPath := [''a''],
                       eventFieldProps := JObj [(''fieldPath'', JArr [JStr ''a''])]\<rparr>)
   = ([Emit ([''a''], JObj [(''focused'', JBool True)],
             Some (FocusCallback (JObj [(''fieldPath'', JArr [JStr ''a''])])))],
      exampleState)"
  by code_simp




section \<open>Validating the form: the properties\<close>







lemma validateField_only_fieldProps:
  "validateField u st (onlyFieldProps fp) =
     (mergeDeepLeft
        (validateUtil u JUndefined False (recordToValidate u st fp) (stateFields st))
        (recordToValidate u st fp),
      [Emit (fieldPathOf (recordToValidate u st fp),
             validateUtil u JUndefined False (recordToValidate u st fp) (stateFields st),
             None)])"
  by (simp add: validateField_def onlyFieldProps_def recordToValidate_def Let_def)

lemma validations_emit_only:
  "list_all (\<lambda>e. \<not> isActionCall e \<and> \<not> isHookCall e)
     (concat (map (\<lambda>fp. snd (validateField u st (onlyFieldProps fp))) fps))"
  by (induction fps) (simp_all add: validateField_only_fieldProps)


lemma validate_snd:
  "snd (validate u props st predicate) =
     concat (map (\<lambda>fp. snd (validateField u st (onlyFieldProps fp))) (flattenedFields st predicate))
     @ (if \<not> list_all (expectedIs True) (validatedFields u st predicate) \<and> given props OnInvalid
        then [HookCall OnInvalid
                (JObj [(''invalidFields'',
                        JArr (filter (expectedIs False) (validatedFields u st predicate))),
                       (''fields'', stateFields st),
                       (''form'', JForm)])]
        else [])"
  by (simp add: validate_def validatedFields_def Let_def comp_def dispatch_def)

lemma filter_none: "list_all (\<lambda>e. \<not> P e) xs \<Longrightarrow> filter P xs = []"
  by (induction xs) auto

lemma validate_effects_no_submit:
  "list_all (\<lambda>e. \<not> isActionCall e \<and> \<not> isHookCallOf OnSubmitStart e
                \<and> \<not> isHookCallOf OnSubmitted e \<and> \<not> isHookCallOf OnSubmitFailed e
                \<and> \<not> isHookCallOf OnSubmitEnd e)
     (snd (validate u props st predicate))"
proof -
  have "list_all (\<lambda>e. \<not> isActionCall e \<and> \<not> isHookCall e) xs \<Longrightarrow>
        list_all (\<lambda>e. \<not> isActionCall e \<and> \<not> isHookCallOf OnSubmitStart e
                \<and> \<not> isHookCallOf OnSubmitted e \<and> \<not> isHookCallOf OnSubmitFailed e
                \<and> \<not> isHookCallOf OnSubmitEnd e) xs" for xs
  proof (induction xs)
    case (Cons e xs)
    then show ?case by (cases e) simp_all
  qed simp
  from this [OF validations_emit_only] show ?thesis
    by (simp add: validate_snd)
qed





section \<open>Submitting the form: the properties\<close>

lemma dispatch_not_action: "list_all (\<lambda>e. \<not> isActionCall e) (dispatch props h args)"
  by (simp add: dispatch_def)

lemma filter_action_validate:
  "filter isActionCall (snd (validate u props st predicate)) = []"
  using validate_effects_no_submit [of u props st predicate]
  by (intro filter_none) (simp add: list_all_iff)

text \<open>
  C8. When the validation of the form gives false, \<open>submit\<close> does nothing beyond
  preventing the default submission and validating: the action is not called,
  \<open>onSubmitStart\<close> is not fired, and, with an action given, the call resolves with
  \<open>undefined\<close>.
\<close>

theorem invalid_form_submit_aborts:
  assumes "\<not> fst (validate u props st (\<lambda>fieldRecord. True))"
  shows "snd (submit u props st event)
           = (if event then [PreventDefault] else [])
             @ (case action props of
                  None \<Rightarrow> []
                | Some act \<Rightarrow> snd (validate u props st (\<lambda>fieldRecord. True)))
         \<and> list_all (\<lambda>e. \<not> isActionCall e \<and> \<not> isHookCallOf OnSubmitStart e)
             (snd (submit u props st event))
         \<and> (action props \<noteq> None \<longrightarrow>
              fst (submit u props st event) = Returns (Settled (Resolved JUndefined)))"
proof -
  have effects: "snd (submit u props st event)
           = (if event then [PreventDefault] else [])
             @ (case action props of
                  None \<Rightarrow> []
                | Some act \<Rightarrow> snd (validate u props st (\<lambda>fieldRecord. True)))"
    using assms by (simp add: submit_def Let_def split: option.splits)
  have "list_all (\<lambda>e. \<not> isActionCall e \<and> \<not> isHookCallOf OnSubmitStart e)
          (snd (validate u props st (\<lambda>fieldRecord. True)))"
    using validate_effects_no_submit [of u props st "\<lambda>fieldRecord. True"]
    by (simp add: list_all_iff)
  then have none: "list_all (\<lambda>e. \<not> isActionCall e \<and> \<not> isHookCallOf OnSubmitStart e)
          (snd (submit u props st event))"
    by (simp add: effects split: option.splits)
  have result: "action props \<noteq> None \<longrightarrow>
              fst (submit u props st event) = Returns (Settled (Resolved JUndefined))"
    using assms by (auto simp: submit_def Let_def)
  from effects none result show ?thesis by blast
qed

theorem invalid_form_submit_aborts_witness:
  "\<not> fst (validate exampleUtils exampleProps scenarioState (\<lambda>fieldRecord. True))
   \<and> filter isActionCall (snd (submit exampleUtils exampleProps scenarioState True)) = []
   \<and> filter (isHookCallOf OnSubmitStart) (snd (submit exampleUtils exampleProps scenarioState True)) = []
   \<and> fst (submit exampleUtils exampleProps scenarioState True)
     = Returns (Settled (Resolved JUndefined))"
proof -
  have invalid: "\<not> fst (validate exampleUtils exampleProps scenarioState (\<lambda>fieldRecord. True))"
    by code_simp
  have given: "action exampleProps \<noteq> None"
    by (simp add: exampleProps_def)
  from invalid_form_submit_aborts [OF invalid, of True] given invalid
  show ?thesis
    by (simp add: list_all_iff filter_empty_conv)
qed

text \<open>
  C9, as the claim states it, fails in how the error is reported: \<open>submit\<close> is an
  \<open>async\<close> function, and the second \<open>invariant\<close> runs after the validation was
  awaited. The call returns a promise, and the failed assertion rejects that promise;
  nothing is thrown to the caller. Here the form is valid and the action returns
  \<open>undefined\<close>.
\<close>

theorem not_thenable_action_not_thrown:
  "fst (submit exampleUtils exampleProps validState False)
     = Returns (Settled (Rejected (InvariantViolation notThenableMessage JUndefined)))
   \<and> fst (submit exampleUtils exampleProps validState False)
     \<noteq> Throws (InvariantViolation notThenableMessage JUndefined)"
  by code_simp

text \<open>
  C9, amended. On a valid form, when the action returns something that is not a
  thenable, the assertion fails right after the action returned: the promise of
  \<open>submit\<close> is rejected with the violation, which names the returned value; the action
  was called exactly once, after \<open>onSubmitStart\<close>, and none of \<open>onSubmitted\<close>,
  \<open>onSubmitFailed\<close> and \<open>onSubmitEnd\<close> is fired.
\<close>

theorem not_thenable_action_rejects:
  assumes "action props = Some act"
    and "fst (validate u props st (\<lambda>fieldRecord. True))"
    and "act (callbackArgsOf u props st) = NotThenable returned"
  shows "submit u props st event
           = (Returns (Settled (Rejected (InvariantViolation notThenableMessage returned))),
              (if event then [PreventDefault] else [])
              @ snd (validate u props st (\<lambda>fieldRecord. True))
              @ dispatch props OnSubmitStart (callbackArgsOf u props st)
              @ [ActionCall (callbackArgsOf u props st)])
         \<and> filter isActionCall (snd (submit u props st event))
           = [ActionCall (callbackArgsOf u props st)]
         \<and> list_all (\<lambda>e. \<not> isHookCallOf OnSubmitted e \<and> \<not> isHookCallOf OnSubmitFailed e
                          \<and> \<not> isHookCallOf OnSubmitEnd e)
             (snd (submit u props st event))"
proof -
  have whole: "submit u props st event
           = (Returns (Settled (Rejected (InvariantViolation notThenableMessage returned))),
              (if event then [PreventDefault] else [])
              @ snd (validate u props st (\<lambda>fieldRecord. True))
              @ dispatch props OnSubmitStart (callbackArgsOf u props st)
              @ [ActionCall (callbackArgsOf u props st)])"
    using assms by (simp add: submit_def Let_def)
  have once: "filter isActionCall (snd (submit u props st event))
           = [ActionCall (callbackArgsOf u props st)]"
    by (simp add: whole filter_action_validate dispatch_def)
  have "list_all (\<lambda>e. \<not> isHookCallOf OnSubmitted e \<and> \<not> isHookCallOf OnSubmitFailed e
                          \<and> \<not> isHookCallOf OnSubmitEnd e)
          (snd (validate u props st (\<lambda>fieldRecord. True)))"
    using validate_effects_no_submit [of u props st "\<lambda>fieldRecord. True"]
    by (simp add: list_all_iff)
  then have later: "list_all (\<lambda>e. \<not> isHookCallOf OnSubmitted e \<and> \<not> isHookCallOf OnSubmitFailed e
                          \<and> \<not> isHookCallOf OnSubmitEnd e)
             (snd (submit u props st event))"
    by (simp add: whole dispatch_def)
  from whole once later show ?thesis by blast
qed

theorem not_thenable_action_rejects_witness:
  "action exampleProps = Some (\<lambda>args. NotThenable JUndefined)
   \<and> fst (validate exampleUtils exampleProps validState (\<lambda>fieldRecord. True))
   \<and> fst (submit exampleUtils exampleProps validState True)
     = Returns (Settled (Rejected (InvariantViolation notThenableMessage JUndefined)))
   \<and> filter isActionCall (snd (submit exampleUtils exampleProps validState True))
     = [ActionCall (callbackArgsOf exampleUtils exampleProps validState)]"
proof -
  have act: "action exampleProps = Some (\<lambda>args. NotThenable JUndefined)"
    by (simp add: exampleProps_def)
  have valid: "fst (validate exampleUtils exampleProps validState (\<lambda>fieldRecord. True))"
    by code_simp
  have returned: "(\<lambda>args. NotThenable JUndefined) (callbackArgsOf exampleUtils exampleProps validState)
      = NotThenable JUndefined"
    by simp
  note rejects = not_thenable_action_rejects [OF act valid returned, of True]
  from rejects have result: "fst (submit exampleUtils exampleProps validState True)
     = Returns (Settled (Rejected (InvariantViolation notThenableMessage JUndefined)))"
    by simp
  from rejects have once: "filter isActionCall (snd (submit exampleUtils exampleProps validState True))
     = [ActionCall (callbackArgsOf exampleUtils exampleProps validState)]"
    by blast
  from act valid result once show ?thesis
    by blast
qed

end
